theory Spec2Isabelle
  imports Main "HOL-Library.Sublist"
begin

section \<open>History manager (HistoryManager.ts, otherUtil.ts)\<close>

text \<open>
  Snapshots are JSON values: \<open>getDeepCopyOfObject\<close> is \<open>JSON.parse(JSON.stringify(obj))\<close>,
  and \<open>addToHistory\<close> compares snapshots through \<open>JSON.stringify\<close>. Numbers are
  integers here; an object is the ordered list of its own properties, the order in which
  \<open>JSON.stringify\<close> prints them.
\<close>

datatype json =
    JNull
  | JBool bool
  | JNum int
  | JStr string
  | JArr "json list"
  | JObj "(string \<times> json) list"

text \<open>
  A slot of a JavaScript array, and the result of reading one: \<open>None\<close> is \<open>undefined\<close>
  (a hole, or an index outside the array).
\<close>

type_synonym jsval = "json option"

text \<open>
  The errors: the \<open>SyntaxError\<close> of \<open>JSON.parse\<close>; the \<open>Error\<close> that
  \<open>buildEditorContentWithMarks\<close> throws for an identifier that no text segment has; and,
  raised by no function of the source, the outcome of the round trip stated below when
  parsing has left an identifier that is no string.
\<close>

datatype error = SyntaxError | SegmentNotFound string | IdentifierNotAString

text \<open>JavaScript truthiness, as used by \<open>this.getState() && ...\<close>.\<close>

fun truthy :: "jsval \<Rightarrow> bool" where
  "truthy None = False"
| "truthy (Some JNull) = False"
| "truthy (Some (JBool b)) = b"
| "truthy (Some (JNum n)) = (n \<noteq> 0)"
| "truthy (Some (JStr s)) = (s \<noteq> [])"
| "truthy (Some (JArr xs)) = True"
| "truthy (Some (JObj kvs)) = True"

text \<open>
  \<open>JSON.stringify\<close> is injective on JSON values, so the comparison
  \<open>JSON.stringify(a) === JSON.stringify(b)\<close> is equality of the values; for \<open>undefined\<close>
  it returns \<open>undefined\<close>, which equals only itself.
\<close>

definition sameJSON :: "jsval \<Rightarrow> jsval \<Rightarrow> bool" where
  "sameJSON a b = (a = b)"

text \<open>
  \<open>getDeepCopyOfObject\<close>: the JSON round trip gives back an equal value;
  \<open>JSON.parse(undefined)\<close> throws a SyntaxError.
\<close>

fun getDeepCopyOfObject :: "jsval \<Rightarrow> error + jsval" where
  "getDeepCopyOfObject None = Inl SyntaxError"
| "getDeepCopyOfObject (Some v) = Inr (Some v)"

text \<open>
  The remainder operator \<open>%\<close> of JavaScript takes the sign of the dividend. For \<open>m = 0\<close>
  JavaScript gives NaN, which the integers do not have: the history manager is constructed
  with a positive capacity, and every statement below assumes it.
\<close>

definition jsRem :: "int \<Rightarrow> int \<Rightarrow> int" where
  "jsRem n m = sgn n * (\<bar>n\<bar> mod \<bar>m\<bar>)"

definition posMod :: "int \<Rightarrow> int \<Rightarrow> int" where
  "posMod n m = (let remain = jsRem n m in if remain \<ge> 0 then remain else remain + m)"

text \<open>Reading and writing \<open>arr[i]\<close>: a read outside the array is \<open>undefined\<close>, a write
  beyond the end extends the array with holes. A write at a negative index would set a
  property that is no element; it leaves the elements as they are.\<close>

definition arrGet :: "jsval list \<Rightarrow> int \<Rightarrow> jsval" where
  "arrGet xs i = (if 0 \<le> i \<and> i < int (length xs) then xs ! nat i else None)"

definition arrSet :: "jsval list \<Rightarrow> int \<Rightarrow> jsval \<Rightarrow> jsval list" where
  "arrSet xs i v =
     (if i < 0 then xs
      else if nat i < length xs then xs[nat i := v]
      else xs @ replicate (nat i - length xs) None @ [v])"

text \<open>The object; its field \<open>end\<close> is \<open>endp\<close> here.\<close>

record HistoryManager =
  maxLength :: int
  pos :: int
  start :: int
  endp :: int
  states :: "jsval list"
  deepCopy :: bool
  lastReturnedState :: jsval

definition clear :: "HistoryManager \<Rightarrow> HistoryManager" where
  "clear h = h\<lparr>pos := 0, start := 0, endp := 0, states := [], lastReturnedState := Some JNull\<rparr>"

definition newHistoryManager :: "int \<Rightarrow> bool \<Rightarrow> HistoryManager" where
  "newHistoryManager n dc =
     clear \<lparr>maxLength = n, pos = 0, start = 0, endp = 0, states = [], deepCopy = dc,
            lastReturnedState = None\<rparr>"

definition canGoBack :: "HistoryManager \<Rightarrow> bool" where
  "canGoBack h = (if pos h = start h \<or> length (states h) = 0 then False else True)"

definition goBack :: "HistoryManager \<Rightarrow> bool \<times> HistoryManager" where
  "goBack h =
     (if \<not> canGoBack h then (False, h)
      else (True, h\<lparr>pos := posMod (pos h - 1) (maxLength h)\<rparr>))"

definition canGoForward :: "HistoryManager \<Rightarrow> bool" where
  "canGoForward h = (if pos h = endp h \<or> length (states h) = 0 then False else True)"

definition goForward :: "HistoryManager \<Rightarrow> bool \<times> HistoryManager" where
  "goForward h =
     (if \<not> canGoForward h then (False, h)
      else (True, h\<lparr>pos := posMod (pos h + 1) (maxLength h)\<rparr>))"

definition getState :: "HistoryManager \<Rightarrow> error + jsval" where
  "getState h =
     (if length (states h) = 0 then Inr (Some JNull)
      else let result = arrGet (states h) (pos h)
           in if deepCopy h then getDeepCopyOfObject result else Inr result)"

text \<open>
  \<open>addToHistory\<close>. The snapshot passed in is a JSON value, so its own deep copy cannot
  fail; \<open>getState\<close> can throw (a hole under \<open>pos\<close> with \<open>deepCopy\<close>), before anything is
  changed. \<open>advance\<close> is the block under \<open>if (this.states.length !== 0)\<close>.
\<close>

definition advance :: "HistoryManager \<Rightarrow> HistoryManager" where
  "advance h =
     (if length (states h) \<noteq> 0 then
        (let e = posMod (pos h + 1) (maxLength h);
             h1 = h\<lparr>endp := e, pos := e\<rparr>
         in if start h1 = endp h1 then h1\<lparr>start := posMod (endp h1 + 1) (maxLength h1)\<rparr>
            else h1)
      else h)"

definition addToHistory :: "HistoryManager \<Rightarrow> json \<Rightarrow> error + (bool \<times> HistoryManager)" where
  "addToHistory h state =
     (case getState h of
        Inl e \<Rightarrow> Inl e
      | Inr cur \<Rightarrow>
          if truthy cur \<and> sameJSON cur (Some state) then Inr (False, h)
          else let h1 = advance h
               in Inr (True, h1\<lparr>states := arrSet (states h1) (pos h1) (Some state)\<rparr>))"


section \<open>Strings (otherUtil.ts)\<close>

text \<open>
  A string is the list of its code units; the alphabet of the model is the code units
  0 to 255. The class \<open>\s\<close> of a JavaScript regular expression holds, in that range, tab,
  line feed, vertical tab, form feed, carriage return, space and the no-break space.
\<close>

definition isWhitespace :: "char \<Rightarrow> bool" where
  "isWhitespace c = (c \<in> {CHR 0x09, CHR 0x0A, CHR 0x0B, CHR 0x0C, CHR 0x0D, CHR 0x20, CHR 0xA0})"

text \<open>\<open>!str.replace(/(\s|\n|\r|\n)*/g, '').length\<close>: nothing is left once the whitespace
  is removed.\<close>

definition stringContainsOnlyWhitespace :: "string \<Rightarrow> bool" where
  "stringContainsOnlyWhitespace str = (length (filter (\<lambda>c. \<not> isWhitespace c) str) = 0)"

text \<open>\<open>getLastElementInArray\<close>: \<open>undefined\<close> for the empty array.\<close>

definition getLastElementInArray :: "'a list \<Rightarrow> 'a option" where
  "getLastElementInArray arr = (if length arr = 0 then None else Some (arr ! (length arr - 1)))"

text \<open>
  \<open>Array.prototype.reduce\<close> with an initial value: the callback receives the accumulator,
  the element, its index and the array.
\<close>

fun reduceFrom :: "('b \<Rightarrow> 'a \<Rightarrow> nat \<Rightarrow> 'a list \<Rightarrow> 'b) \<Rightarrow> 'b \<Rightarrow> nat \<Rightarrow> 'a list \<Rightarrow> 'a list \<Rightarrow> 'b" where
  "reduceFrom f acc i arr [] = acc"
| "reduceFrom f acc i arr (c # cs) = reduceFrom f (f acc c i arr) (Suc i) arr cs"

definition reduce :: "('b \<Rightarrow> 'a \<Rightarrow> nat \<Rightarrow> 'a list \<Rightarrow> 'b) \<Rightarrow> 'b \<Rightarrow> 'a list \<Rightarrow> 'b" where
  "reduce f initialVal arr = reduceFrom f initialVal 0 arr arr"

section \<open>Diff highlights (suggestionUtil.ts)\<close>

text \<open>
  A \<open>Change\<close> of the diff library: its text and the two flags (an absent flag is false).
  A \<open>TextSegmentStructureElement\<close> is a span \<open>{value, highlight}\<close>; its text field is
  \<open>evalue\<close> here, that of a change \<open>cvalue\<close>.
\<close>

record Change =
  cvalue :: string
  added :: bool
  removed :: bool

record TextSegmentStructureElement =
  evalue :: string
  highlight :: bool

datatype strategy = Removed | Added

text \<open>\<open>c[strategy]\<close>, read as a boolean.\<close>

fun flag :: "strategy \<Rightarrow> Change \<Rightarrow> bool" where
  "flag Removed c = removed c"
| "flag Added c = added c"

record WhitespaceAcc =
  bufA :: "TextSegmentStructureElement option"
  bufB :: "TextSegmentStructureElement option"
  wresult :: "TextSegmentStructureElement list"

text \<open>The reducer of \<open>highlightWhitespaceBetweenHighlights\<close>; \<open>bufA\<close> and \<open>bufB\<close> are
  its \<open>acc.a\<close> and \<open>acc.b\<close>.\<close>

definition whitespaceReducer ::
  "WhitespaceAcc \<Rightarrow> TextSegmentStructureElement \<Rightarrow> nat \<Rightarrow> TextSegmentStructureElement list \<Rightarrow> WhitespaceAcc" where
  "whitespaceReducer acc c i arr =
     (let acc1 =
        (case (bufA acc, bufB acc) of
           (Some a, Some b) \<Rightarrow>
             if highlight a \<and> \<not> highlight b \<and> highlight c \<and> stringContainsOnlyWhitespace (evalue b)
             then acc\<lparr>bufA := None,
                      bufB := Some \<lparr>evalue = evalue a @ evalue b @ evalue c, highlight = True\<rparr>\<rparr>
             else acc\<lparr>wresult := wresult acc @ [a], bufA := bufB acc, bufB := Some c\<rparr>
         | _ \<Rightarrow> acc\<lparr>bufA := bufB acc, bufB := Some c\<rparr>)
      in if int i = int (length arr) - 1
         then acc1\<lparr>wresult := wresult acc1 @ List.map_filter id [bufA acc1, bufB acc1]\<rparr>
         else acc1)"

definition highlightWhitespaceBetweenHighlights ::
  "TextSegmentStructureElement list \<Rightarrow> TextSegmentStructureElement list" where
  "highlightWhitespaceBetweenHighlights arr =
     wresult (reduce whitespaceReducer \<lparr>bufA = None, bufB = None, wresult = []\<rparr> arr)"

record Accumulator =
  currentChain :: "TextSegmentStructureElement option"
  result :: "TextSegmentStructureElement list"

fun otherStrategy :: "strategy \<Rightarrow> strategy" where
  "otherStrategy Removed = Added"
| "otherStrategy Added = Removed"

definition filterAndCombineChanges ::
  "strategy \<Rightarrow> Accumulator \<Rightarrow> Change \<Rightarrow> nat \<Rightarrow> Change list \<Rightarrow> Accumulator" where
  "filterAndCombineChanges strat acc c i arr =
     (let acc1 =
        (if \<not> flag (otherStrategy strat) c then
           (let acc2 =
              (case currentChain acc of
                 Some ch \<Rightarrow>
                   if highlight ch \<noteq> flag strat c
                   then acc\<lparr>result := result acc @ [ch], currentChain := None\<rparr>
                   else acc
               | None \<Rightarrow> acc)
            in case currentChain acc2 of
                 None \<Rightarrow> acc2\<lparr>currentChain := Some \<lparr>evalue = cvalue c, highlight = flag strat c\<rparr>\<rparr>
               | Some ch \<Rightarrow> acc2\<lparr>currentChain := Some (ch\<lparr>evalue := evalue ch @ cvalue c\<rparr>)\<rparr>)
         else acc)
      in case currentChain acc1 of
           Some ch \<Rightarrow> if int i = int (length arr) - 1 then acc1\<lparr>result := result acc1 @ [ch]\<rparr> else acc1
         | None \<Rightarrow> acc1)"

definition getHighlightsWithStrategy :: "strategy \<Rightarrow> Change list \<Rightarrow> TextSegmentStructureElement list" where
  "getHighlightsWithStrategy strat diff =
     highlightWhitespaceBetweenHighlights
       (result (reduce (filterAndCombineChanges strat) \<lparr>currentChain = None, result = []\<rparr> diff))"

record Highlights =
  fromHighlights :: "TextSegmentStructureElement list"
  toHighlights :: "TextSegmentStructureElement list"

text \<open>
  \<open>getHighlights\<close>. The word diff \<open>diffWords\<close> comes from the package \<open>diff\<close>, which is no
  part of this repository: it is a parameter here.
\<close>

definition getHighlights :: "(string \<Rightarrow> string \<Rightarrow> Change list) \<Rightarrow> string \<Rightarrow> string \<Rightarrow> Highlights" where
  "getHighlights diffWords from to =
     (let diff = diffWords from to
      in \<lparr>fromHighlights = getHighlightsWithStrategy Removed diff,
          toHighlights = getHighlightsWithStrategy Added diff\<rparr>)"

section \<open>Sentence splitting (otherUtil.ts)\<close>

text \<open>
  The regular expression of \<open>splitStringIntoSentencesAndWhitespace\<close> is
  \<open>([.|:|!|?]+)(["|...|[|\]]*)([.|:|!|?]*)([\s|\n|\r|\n]+)\<close>, with the flags \<open>g\<close> and \<open>m\<close>.
  Inside a character class \<open>|\<close> is a member like any other, so the bar belongs to all
  three classes. The quotation marks of the second class that lie beyond code unit 255
  (the curly quotes and the corner brackets) are outside the alphabet of the model.
\<close>

definition isTerminator :: "char \<Rightarrow> bool" where
  "isTerminator c = (c \<in> {CHR ''.'', CHR ''|'', CHR '':'', CHR ''!'', CHR ''?''})"

definition isCloser :: "char \<Rightarrow> bool" where
  "isCloser c = (c \<in> {CHR 0x22, CHR ''|'', CHR 0x27, CHR 0xAB, CHR 0xBB,
                        CHR ''('', CHR '')'', CHR ''{'', CHR ''}'', CHR ''['', CHR '']''})"

definition isSeparator :: "char \<Rightarrow> bool" where
  "isSeparator c = (isWhitespace c \<or> c = CHR ''|'')"

definition runLength :: "(char \<Rightarrow> bool) \<Rightarrow> string \<Rightarrow> nat" where
  "runLength P s = length (takeWhile P s)"

text \<open>
  The match attempts at the head of \<open>s\<close>, in the order of the backtracking matcher:
  each quantifier is greedy, so the lengths of the first three groups are tried from the
  longest down, an earlier group giving way only when the later ones have no choice left;
  the fourth group takes the whole run of separators and must not be empty. A candidate is
  the length of groups one to three and the length of group four; the match is the first
  candidate.
\<close>

definition sentenceEndCandidates :: "string \<Rightarrow> (nat \<times> nat) list" where
  "sentenceEndCandidates s =
     [(n1 + n2 + n3, runLength isSeparator (drop (n1 + n2 + n3) s)).
        n1 \<leftarrow> rev [1 ..< Suc (runLength isTerminator s)],
        n2 \<leftarrow> rev [0 ..< Suc (runLength isCloser (drop n1 s))],
        n3 \<leftarrow> rev [0 ..< Suc (runLength isTerminator (drop (n1 + n2) s))],
        1 \<le> runLength isSeparator (drop (n1 + n2 + n3) s)]"

definition matchSentenceEnd :: "string \<Rightarrow> (nat \<times> nat) option" where
  "matchSentenceEnd s = (case sentenceEndCandidates s of [] \<Rightarrow> None | m # _ \<Rightarrow> Some m)"

text \<open>
  \<open>str.replace(re, '$1$2$3|$4|')\<close> with the global flag: matches are searched from left
  to right, the search going on behind each match; what is not matched is copied.
\<close>

function replaceSentenceEnds :: "string \<Rightarrow> string" where
  "replaceSentenceEnds [] = []"
| "replaceSentenceEnds (c # cs) =
     (case matchSentenceEnd (c # cs) of
        None \<Rightarrow> c # replaceSentenceEnds cs
      | Some (k, n) \<Rightarrow>
          take k (c # cs) @ ''|'' @ take n (drop k (c # cs)) @ ''|''
            @ replaceSentenceEnds (drop (k + n) (c # cs)))"
  by pat_completeness auto
termination
proof (relation "measure length")
  show "wf (measure length)" by simp
next
  fix c :: char and cs :: string
  show "(cs, c # cs) \<in> measure length" by simp
next
  fix c :: char and cs :: string and x2 :: "nat \<times> nat" and k n :: nat
  assume m: "matchSentenceEnd (c # cs) = Some x2" and x: "(k, n) = x2"
  from m x have "(k, n) \<in> set (sentenceEndCandidates (c # cs))"
    unfolding matchSentenceEnd_def by (cases "sentenceEndCandidates (c # cs)") simp_all
  then obtain n1 n2 n3 where "k = n1 + n2 + n3" "n1 \<in> set [1 ..< Suc (runLength isTerminator (c # cs))]"
    unfolding sentenceEndCandidates_def by (auto simp del: upt_Suc)
  then have "1 \<le> k" by (simp del: upt_Suc)
  then show "(drop (k + n) (c # cs), c # cs) \<in> measure length" by simp
qed

text \<open>\<open>String.prototype.split\<close> with a separator of one character: the pieces between
  the separators, the empty ones too.\<close>

fun split :: "char \<Rightarrow> string \<Rightarrow> string list" where
  "split d [] = [[]]"
| "split d (c # cs) =
     (if c = d then [] # split d cs
      else (case split d cs of w # ws \<Rightarrow> (c # w) # ws | [] \<Rightarrow> [[c]]))"

definition splitStringIntoSentencesAndWhitespace :: "string \<Rightarrow> string list" where
  "splitStringIntoSentencesAndWhitespace str =
     (let matchedString = replaceSentenceEnds str
      in filter (\<lambda>s. length s > 0) (split (CHR ''|'') matchedString))"

section \<open>Document trees and text segments (types.ts)\<close>

text \<open>
  A mark of a text leaf; of its attributes the code reads \<open>textSegmentId\<close> and writes
  \<open>textSegmentId\<close> and \<open>hasSuggestion\<close>. An absent attribute is \<open>None\<close>.
\<close>

record MarkAttrs =
  attrTextSegmentId :: "string option"
  hasSuggestion :: "bool option"
  suggestionId :: "string option"

datatype Mark = Mark (markType: string) (markAttrs: "MarkAttrs option")

text \<open>
  \<open>JSONContent\<close> and its extension \<open>JSONContentStructure\<close>: every field is optional. The
  field \<open>type\<close> is \<open>nodeType\<close> and the field \<open>text\<close> is \<open>nodeText\<close> here. The type
  \<open>'i\<close> is that of the values of \<open>textSegmentId\<close>: strings in the content of the editor
  and in what \<open>buildEditorContentWithMarks\<close> is given, the values described below in what
  \<open>parseEditorContent\<close> returns.
\<close>

datatype 'i JSONContent =
  JSONContent (nodeType: "string option") (attrs: "(string \<times> json) list option")
    (content: "'i JSONContent list option") (marks: "Mark list option")
    (nodeText: "string option") (textSegmentId: "'i option")

text \<open>\<open>Translatable\<close> and \<open>TextSegment\<close>; the field \<open>_id\<close> is \<open>segId\<close> here, of type \<open>'i\<close>
  as well.\<close>

record 'i Translatable =
  segId :: 'i
  srcText :: string

datatype TextSegmentEditType = edited | accepted | rejected | created | deleted

record TextSegmentEdit =
  editType :: TextSegmentEditType
  before :: string
  after :: string

record 'i TextSegment = "'i Translatable" +
  mtText :: string
  mtTextStructure :: "TextSegmentStructureElement list"
  apeText :: string
  apeTextStructure :: "TextSegmentStructureElement list"
  hpeText :: string
  suggestionIsActive :: bool
  edits :: "TextSegmentEdit list"

section \<open>Parsing the editor content (editorUtil.ts)\<close>

text \<open>
  The values an identifier takes while the content is parsed. The marks of the content
  carry strings, and \<open>uuid()\<close> returns strings. The replacement table \<open>idReplacements\<close> is
  a plain object \<open>{}\<close>: read under a key that it does not hold itself, it gives what
  \<open>Object.prototype\<close> holds under that key, which is a function for eleven keys and the
  prototype object for \<open>__proto__\<close>. \<open>Inherited k\<close> is the value inherited under the key
  \<open>k\<close>; such a value is truthy, is no string, and is identical (\<open>===\<close>) to itself only.
\<close>

datatype ident = Str string | Inherited string

definition objectPrototypeKeys :: "string list" where
  "objectPrototypeKeys =
     [''constructor'', ''__defineGetter__'', ''__defineSetter__'', ''hasOwnProperty'',
      ''__lookupGetter__'', ''__lookupSetter__'', ''isPrototypeOf'', ''propertyIsEnumerable'',
      ''toString'', ''valueOf'', ''__proto__'', ''toLocaleString'']"

text \<open>Truthiness of a string, \<open>null\<close> or \<open>undefined\<close>, and of an identifier, \<open>null\<close> or
  \<open>undefined\<close>.\<close>

fun truthyStr :: "string option \<Rightarrow> bool" where
  "truthyStr None = False"
| "truthyStr (Some s) = (s \<noteq> [])"

fun truthyId :: "ident option \<Rightarrow> bool" where
  "truthyId None = False"
| "truthyId (Some (Str s)) = (s \<noteq> [])"
| "truthyId (Some (Inherited k)) = True"

text \<open>
  The property key that a value used as an index is converted to: a string is its own
  key; a built-in function is printed as \<open>function name() { [native code] }\<close> (the form
  V8 prints), where the function under \<open>constructor\<close> has the name \<open>Object\<close>; the prototype
  object is printed as \<open>[object Object]\<close>.
\<close>

fun propertyKey :: "ident \<Rightarrow> string" where
  "propertyKey (Str s) = s"
| "propertyKey (Inherited k) =
     (if k = ''__proto__'' then ''[object Object]''
      else ''function '' @ (if k = ''constructor'' then ''Object'' else k) @ ''() { [native code] }'')"

text \<open>
  The replacement table is modelled by its own properties, which the code sets to strings.
  Reading \<open>idReplacements[k]\<close> gives the own property, else the inherited one, else
  \<open>undefined\<close>. Writing \<open>idReplacements[i] = v\<close> sets the own property under the key of
  \<open>i\<close>; under the key \<open>__proto__\<close> it calls the inherited setter, which ignores a string, so
  reading under \<open>__proto__\<close> always gives the inherited value.
\<close>

type_synonym IdReplacements = "string \<Rightarrow> string option"

definition readReplacement :: "IdReplacements \<Rightarrow> string \<Rightarrow> ident option" where
  "readReplacement repl k =
     (if k = ''__proto__'' then Some (Inherited k)
      else (case repl k of
              Some v \<Rightarrow> Some (Str v)
            | None \<Rightarrow> if k \<in> set objectPrototypeKeys then Some (Inherited k) else None))"

definition writeReplacement :: "IdReplacements \<Rightarrow> ident \<Rightarrow> string \<Rightarrow> IdReplacements" where
  "writeReplacement repl i v =
     (if propertyKey i = ''__proto__'' then repl else repl(propertyKey i \<mapsto> v))"

definition getTextSegmentIdFromMarks :: "Mark list \<Rightarrow> string option" where
  "getTextSegmentIdFromMarks ms =
     foldl (\<lambda>tid m.
              if truthyStr tid then tid
              else (case markAttrs m of None \<Rightarrow> None | Some a \<Rightarrow> attrTextSegmentId a))
           None ms"

record MergeState =
  currentId :: "ident option"
  currentText :: "string option"
  cleanedTextSegments :: "ident Translatable list"

text \<open>The callback of \<open>mergeTextSegmentsWithSameId\<close>, with the index and the array that
  \<open>forEach\<close> passes.\<close>

definition mergeStep ::
  "MergeState \<Rightarrow> ident Translatable \<Rightarrow> nat \<Rightarrow> ident Translatable list \<Rightarrow> MergeState" where
  "mergeStep st ts i arr =
     (let st1 =
        (if Some (segId ts) \<noteq> currentId st then
           (let st0 =
              (case (currentText st, currentId st) of
                 (Some t, Some c) \<Rightarrow>
                   if t \<noteq> [] \<and> truthyId (Some c)
                   then st\<lparr>cleanedTextSegments := cleanedTextSegments st @ [\<lparr>segId = c, srcText = t\<rparr>]\<rparr>
                   else st
               | _ \<Rightarrow> st)
            in st0\<lparr>currentId := Some (segId ts), currentText := Some (srcText ts)\<rparr>)
         else st\<lparr>currentText :=
                   Some ((case currentText st of Some t \<Rightarrow> t | None \<Rightarrow> ''undefined'') @ srcText ts)\<rparr>)
      in if length arr = i + 1 then
           (case (currentText st1, currentId st1) of
              (Some t, Some c) \<Rightarrow>
                if t \<noteq> []
                then st1\<lparr>cleanedTextSegments := cleanedTextSegments st1 @ [\<lparr>segId = c, srcText = t\<rparr>]\<rparr>
                else st1
            | _ \<Rightarrow> st1)
         else st1)"

definition mergeTextSegmentsWithSameId :: "ident Translatable list \<Rightarrow> ident Translatable list" where
  "mergeTextSegmentsWithSameId textSegments =
     cleanedTextSegments
       (reduce mergeStep \<lparr>currentId = None, currentText = None, cleanedTextSegments = []\<rparr> textSegments)"

text \<open>\<open>removeDuplicateTextNodes\<close>: the state is \<open>lastId\<close> and \<open>newContent\<close>.\<close>

definition removeDuplicateTextNodes :: "ident JSONContent list \<Rightarrow> ident JSONContent list" where
  "removeDuplicateTextNodes cont =
     snd (foldl (\<lambda>(lastId, newContent) node.
                   (textSegmentId node,
                    if \<not> truthyId (textSegmentId node) \<or> lastId \<noteq> textSegmentId node
                    then newContent @ [node] else newContent))
                (None, []) cont)"

text \<open>The parse history holds identifiers and the tokens \<open>blank\<close> and \<open>break\<close>, which are
  strings.\<close>

definition requiresNewTextSegmentId :: "ident option \<Rightarrow> ident list \<Rightarrow> bool" where
  "requiresNewTextSegmentId tid parseHist =
     (\<not> truthyId tid
      \<or> (getLastElementInArray parseHist \<noteq> tid
          \<and> (case tid of Some t \<Rightarrow> t \<in> set parseHist | None \<Rightarrow> False)))"

definition getTextSegmentIdFromMarksWithReplacement :: "Mark list \<Rightarrow> IdReplacements \<Rightarrow> ident option" where
  "getTextSegmentIdFromMarksWithReplacement ms repl =
     (case getTextSegmentIdFromMarks ms of
        None \<Rightarrow> None
      | Some t \<Rightarrow>
          if t = [] then None
          else if truthyId (readReplacement repl t) then readReplacement repl t
          else Some (Str t))"

record ParseResult =
  textSegments :: "ident Translatable list"
  structures :: "ident JSONContent list"
  parseHistory :: "ident list"
  idReplacements :: IdReplacements

text \<open>
  The identifiers come from \<open>uuid()\<close> of the package \<open>uuid\<close>, which is no part of this
  repository: \<open>uuid k\<close> is the identifier of its call number \<open>k\<close>, and the number of calls
  made so far is passed along.
\<close>

text \<open>The loop over \<open>splitText\<close> in the branch of raw text.\<close>

fun wrapRawText ::
  "(nat \<Rightarrow> string) \<Rightarrow> string option \<Rightarrow> (string \<times> json) list option \<Rightarrow> string list
     \<Rightarrow> ParseResult \<Rightarrow> nat \<Rightarrow> ParseResult \<times> nat" where
  "wrapRawText uuid ty at [] r n = (r, n)"
| "wrapRawText uuid ty at (str # strs) r n =
     (if stringContainsOnlyWhitespace str then
        wrapRawText uuid ty at strs
          (r\<lparr>structures := structures r @ [JSONContent ty at None None (Some str) None],
             parseHistory := parseHistory r @ [Str ''blank'']\<rparr>) n
      else
        (let newId = Str (uuid n)
         in wrapRawText uuid ty at strs
              (r\<lparr>textSegments := textSegments r @ [\<lparr>segId = newId, srcText = str\<rparr>],
                 structures := structures r @ [JSONContent ty at None None None (Some newId)],
                 parseHistory := parseHistory r @ [newId]\<rparr>) (Suc n)))"

text \<open>
  \<open>parseEditorContentInternal\<close>. The deep copy of the node is an equal tree, the content of
  the editor being JSON. The replacement table is one object that all calls share and
  change in place; here it is passed in and handed back. \<open>parseChildren\<close> is the loop
  \<open>content.forEach\<close> of the branch of a node with children, and \<open>ChildrenState\<close> holds the
  variables that the loop changes.
\<close>

record ChildrenState =
  tempTextSegments :: "ident Translatable list"
  tempContent :: "ident JSONContent list"
  localParseHistory :: "ident list"
  childIdReplacements :: IdReplacements

fun parseEditorContentInternal ::
  "(nat \<Rightarrow> string) \<Rightarrow> string JSONContent \<Rightarrow> ident list \<Rightarrow> IdReplacements \<Rightarrow> nat
     \<Rightarrow> ParseResult \<times> nat"
and parseChildren ::
  "(nat \<Rightarrow> string) \<Rightarrow> string JSONContent list \<Rightarrow> ident list \<Rightarrow> ChildrenState \<Rightarrow> nat
     \<Rightarrow> ChildrenState \<times> nat"
where
  "parseEditorContentInternal uuid (JSONContent ty at cont mks txt tsid) parseHist oldIdReplacements n =
     (case txt of
        Some t \<Rightarrow>
          (case mks of
             Some ms \<Rightarrow>
               (let tid = getTextSegmentIdFromMarksWithReplacement ms oldIdReplacements;
                    (finalId, idReplacements', n') =
                      (case tid of
                         None \<Rightarrow> (Str (uuid n), oldIdReplacements, Suc n)
                       | Some old \<Rightarrow>
                           if \<not> truthyId tid \<or> requiresNewTextSegmentId tid parseHist
                           then (Str (uuid n),
                                 if truthyId tid then writeReplacement oldIdReplacements old (uuid n)
                                 else oldIdReplacements,
                                 Suc n)
                           else (old, oldIdReplacements, n))
                in (\<lparr>textSegments = [\<lparr>segId = finalId, srcText = t\<rparr>],
                     structures = [JSONContent ty at None None None (Some finalId)],
                     parseHistory = [finalId],
                     idReplacements = idReplacements'\<rparr>, n'))
           | None \<Rightarrow>
               wrapRawText uuid ty at (splitStringIntoSentencesAndWhitespace t)
                 \<lparr>textSegments = [], structures = [], parseHistory = [],
                  idReplacements = oldIdReplacements\<rparr> n)
      | None \<Rightarrow>
          (case cont of
             None \<Rightarrow>
               (\<lparr>textSegments = [],
                 structures = [JSONContent ty at None mks None (map_option Str tsid)],
                 parseHistory = [Str ''break''],
                 idReplacements = oldIdReplacements\<rparr>, n)
           | Some children \<Rightarrow>
               (let (st, n') =
                      parseChildren uuid children parseHist
                        \<lparr>tempTextSegments = [], tempContent = [], localParseHistory = [],
                         childIdReplacements = oldIdReplacements\<rparr> n
                in (\<lparr>textSegments = mergeTextSegmentsWithSameId (tempTextSegments st),
                     structures =
                       [JSONContent ty at (Some (removeDuplicateTextNodes (tempContent st))) None None None],
                     parseHistory = localParseHistory st @ [Str ''break''],
                     idReplacements = childIdReplacements st\<rparr>, n'))))"
| "parseChildren uuid [] parseHist st n = (st, n)"
| "parseChildren uuid (child # rest) parseHist st n =
     (let (r, n') =
            parseEditorContentInternal uuid child (parseHist @ localParseHistory st)
              (childIdReplacements st) n
      in parseChildren uuid rest parseHist
           \<lparr>tempTextSegments = tempTextSegments st @ textSegments r,
            tempContent = tempContent st @ structures r,
            localParseHistory = localParseHistory st @ parseHistory r,
            childIdReplacements = idReplacements r\<rparr> n')"

text \<open>\<open>parseEditorContent\<close>: the replacement table starts empty, and \<open>structures[0]\<close> is
  \<open>undefined\<close> when there is no structure.\<close>

definition parseEditorContent ::
  "(nat \<Rightarrow> string) \<Rightarrow> string JSONContent \<Rightarrow> ident Translatable list \<times> ident JSONContent option" where
  "parseEditorContent uuid editorContent =
     (let (r, n) = parseEditorContentInternal uuid editorContent [] Map.empty 0
      in (textSegments r, (case structures r of [] \<Rightarrow> None | s # _ \<Rightarrow> Some s)))"

section \<open>Building the editor content (editorUtil.ts)\<close>

text \<open>\<open>hasActiveSuggestion\<close> of suggestionUtil.ts.\<close>

definition hasActiveSuggestion :: "string TextSegment \<Rightarrow> bool" where
  "hasActiveSuggestion textSegment = suggestionIsActive textSegment"

text \<open>The two marks; \<open>TextSegmentMark.name\<close> is \<open>textSegmentMark\<close>, \<open>SuggestionMark.name\<close>
  is \<open>suggestionMark\<close> and \<open>TextSegmentMark.idName\<close> is \<open>textSegmentId\<close>.\<close>

definition textSegmentMark :: "string TextSegment \<Rightarrow> Mark" where
  "textSegmentMark textSegment =
     Mark ''textSegmentMark''
       (Some \<lparr>attrTextSegmentId = Some (segId textSegment),
              hasSuggestion = Some (suggestionIsActive textSegment),
              suggestionId = None\<rparr>)"

definition suggestionMark :: "string TextSegment \<Rightarrow> Mark" where
  "suggestionMark textSegment =
     Mark ''suggestionMark''
       (Some \<lparr>attrTextSegmentId = Some (segId textSegment), hasSuggestion = None,
              suggestionId = None\<rparr>)"

definition textNode :: "string \<Rightarrow> Mark list \<Rightarrow> string JSONContent" where
  "textNode t ms = JSONContent (Some ''text'') None None (Some ms) (Some t) None"

definition textSegmentRegions :: "string TextSegment \<Rightarrow> bool \<Rightarrow> string JSONContent list" where
  "textSegmentRegions textSegment takeSource =
     (if hasActiveSuggestion textSegment then
        (if takeSource then
           [textNode (srcText textSegment) [textSegmentMark textSegment, suggestionMark textSegment]]
         else
           map (\<lambda>s. textNode (evalue s)
                       (if highlight s then [textSegmentMark textSegment, suggestionMark textSegment]
                        else [textSegmentMark textSegment]))
               (mtTextStructure textSegment))
      else
        [textNode (if takeSource then srcText textSegment else hpeText textSegment)
           [textSegmentMark textSegment]])"

text \<open>
  \<open>buildEditorContentWithMarksInternal\<close>, for a skeleton and text segments whose
  identifiers are strings, as their types \<open>JSONContentStructure\<close> and \<open>TextSegment\<close> say; the
  deep copy of such a skeleton is an equal tree. The error is the one the source throws when
  \<open>find\<close> gives no text segment; a throw inside the loop over the children ends the call.
  \<open>buildChildren\<close> is that loop, \<open>content.forEach\<close>, with its variable \<open>newContent\<close>.
\<close>

fun buildEditorContentWithMarksInternal ::
  "string JSONContent \<Rightarrow> string TextSegment list \<Rightarrow> bool \<Rightarrow> error + string JSONContent list"
and buildChildren ::
  "string JSONContent list \<Rightarrow> string TextSegment list \<Rightarrow> bool \<Rightarrow> string JSONContent list
     \<Rightarrow> error + string JSONContent list"
where
  "buildEditorContentWithMarksInternal (JSONContent ty at cont mks txt tsid) segs takeSource =
     (case txt of
        Some t \<Rightarrow> Inr (if t \<noteq> [] then [JSONContent ty at cont mks txt tsid] else [])
      | None \<Rightarrow>
          (case tsid of
             Some i \<Rightarrow>
               (case find (\<lambda>ts. segId ts = i) segs of
                  None \<Rightarrow> Inl (SegmentNotFound i)
                | Some textSegment \<Rightarrow>
                    Inr (filter (\<lambda>x. nodeText x \<noteq> Some [])
                           (textSegmentRegions textSegment takeSource)))
           | None \<Rightarrow>
               (case cont of
                  Some children \<Rightarrow>
                    (case buildChildren children segs takeSource [] of
                       Inl e \<Rightarrow> Inl e
                     | Inr newContent \<Rightarrow> Inr [JSONContent ty at (Some newContent) None None None])
                | None \<Rightarrow> Inr [JSONContent ty at None None None None])))"
| "buildChildren [] segs takeSource newContent = Inr newContent"
| "buildChildren (element # rest) segs takeSource newContent =
     (case buildEditorContentWithMarksInternal element segs takeSource of
        Inl e \<Rightarrow> Inl e
      | Inr childTargetObjects \<Rightarrow>
          buildChildren rest segs takeSource (newContent @ childTargetObjects))"

text \<open>\<open>buildEditorContentWithMarks\<close> returns element 0 of the list, \<open>undefined\<close> (here
  \<open>None\<close>) when the list is empty.\<close>

definition buildEditorContentWithMarks ::
  "string JSONContent \<Rightarrow> string TextSegment list \<Rightarrow> bool \<Rightarrow> error + string JSONContent option" where
  "buildEditorContentWithMarks skel segs takeSource =
     (case buildEditorContentWithMarksInternal skel segs takeSource of
        Inl e \<Rightarrow> Inl e
      | Inr targetObjects \<Rightarrow> Inr (case targetObjects of [] \<Rightarrow> None | x # _ \<Rightarrow> Some x))"

section \<open>Notions used to state and prove the properties\<close>

subsection \<open>History manager\<close>

text \<open>A call of the public interface, and the manager it leaves behind; a call that throws
  leaves the manager as it was.\<close>

datatype call = AddToHistory json | GoBack | GoForward | GetState | Clear | CanGoBack | CanGoForward

fun perform :: "HistoryManager \<Rightarrow> call \<Rightarrow> HistoryManager" where
  "perform h (AddToHistory s) = (case addToHistory h s of Inl e \<Rightarrow> h | Inr (r, h') \<Rightarrow> h')"
| "perform h GoBack = snd (goBack h)"
| "perform h GoForward = snd (goForward h)"
| "perform h GetState = h"
| "perform h Clear = clear h"
| "perform h CanGoBack = h"
| "perform h CanGoForward = h"

definition hm_inv :: "HistoryManager \<Rightarrow> bool" where
  "hm_inv h =
     (0 \<le> pos h \<and> pos h < maxLength h \<and> 0 \<le> start h \<and> start h < maxLength h
      \<and> 0 \<le> endp h \<and> endp h < maxLength h \<and> int (length (states h)) \<le> maxLength h)"

text \<open>Adding snapshots one after the other, and going back \<open>k\<close> times.\<close>

fun pushAll :: "HistoryManager \<Rightarrow> json list \<Rightarrow> error + HistoryManager" where
  "pushAll h [] = Inr h"
| "pushAll h (s # ss) =
     (case addToHistory h s of Inl e \<Rightarrow> Inl e | Inr (r, h') \<Rightarrow> pushAll h' ss)"

fun goBacks :: "nat \<Rightarrow> HistoryManager \<Rightarrow> HistoryManager" where
  "goBacks 0 h = h"
| "goBacks (Suc k) h = goBacks k (snd (goBack h))"

subsection \<open>Diff highlights\<close>

text \<open>No two neighbours have the same highlight flag.\<close>

fun alternating :: "TextSegmentStructureElement list \<Rightarrow> bool" where
  "alternating [] = True"
| "alternating [x] = True"
| "alternating (x # y # zs) = (highlight x \<noteq> highlight y \<and> alternating (y # zs))"

text \<open>The callback of the first pass without its last step, the last step, and the spans
  the accumulator stands for.\<close>

definition combine :: "strategy \<Rightarrow> Accumulator \<Rightarrow> Change \<Rightarrow> Accumulator" where
  "combine strat acc c =
     (if \<not> flag (otherStrategy strat) c then
        (let acc2 =
           (case currentChain acc of
              Some ch \<Rightarrow>
                if highlight ch \<noteq> flag strat c
                then acc\<lparr>result := result acc @ [ch], currentChain := None\<rparr>
                else acc
            | None \<Rightarrow> acc)
         in case currentChain acc2 of
              None \<Rightarrow> acc2\<lparr>currentChain := Some \<lparr>evalue = cvalue c, highlight = flag strat c\<rparr>\<rparr>
            | Some ch \<Rightarrow> acc2\<lparr>currentChain := Some (ch\<lparr>evalue := evalue ch @ cvalue c\<rparr>)\<rparr>)
      else acc)"

definition tidy :: "Accumulator \<Rightarrow> Accumulator" where
  "tidy acc = (case currentChain acc of Some ch \<Rightarrow> acc\<lparr>result := result acc @ [ch]\<rparr> | None \<Rightarrow> acc)"

definition chains :: "Accumulator \<Rightarrow> TextSegmentStructureElement list" where
  "chains acc = result acc @ (case currentChain acc of Some ch \<Rightarrow> [ch] | None \<Rightarrow> [])"

definition chainsOk :: "Accumulator \<Rightarrow> bool" where
  "chainsOk acc = (alternating (chains acc) \<and> (currentChain acc \<noteq> None \<or> result acc = []))"

definition firstPass :: "strategy \<Rightarrow> Change list \<Rightarrow> TextSegmentStructureElement list" where
  "firstPass strat diff =
     result (reduce (filterAndCombineChanges strat) \<lparr>currentChain = None, result = []\<rparr> diff)"

text \<open>The same for the second pass.\<close>

definition shift :: "WhitespaceAcc \<Rightarrow> TextSegmentStructureElement \<Rightarrow> WhitespaceAcc" where
  "shift acc c =
     (case (bufA acc, bufB acc) of
        (Some a, Some b) \<Rightarrow>
          if highlight a \<and> \<not> highlight b \<and> highlight c \<and> stringContainsOnlyWhitespace (evalue b)
          then acc\<lparr>bufA := None,
                   bufB := Some \<lparr>evalue = evalue a @ evalue b @ evalue c, highlight = True\<rparr>\<rparr>
          else acc\<lparr>wresult := wresult acc @ [a], bufA := bufB acc, bufB := Some c\<rparr>
      | _ \<Rightarrow> acc\<lparr>bufA := bufB acc, bufB := Some c\<rparr>)"

definition flush :: "WhitespaceAcc \<Rightarrow> WhitespaceAcc" where
  "flush acc = acc\<lparr>wresult := wresult acc @ List.map_filter id [bufA acc, bufB acc]\<rparr>"

definition pending :: "WhitespaceAcc \<Rightarrow> TextSegmentStructureElement list" where
  "pending acc = wresult acc @ List.map_filter id [bufA acc, bufB acc]"

definition bufOk :: "WhitespaceAcc \<Rightarrow> bool" where
  "bufOk acc = (bufB acc \<noteq> None \<or> (bufA acc = None \<and> wresult acc = []))"

definition pendingOk :: "WhitespaceAcc \<Rightarrow> TextSegmentStructureElement list \<Rightarrow> bool" where
  "pendingOk acc cs =
     (bufOk acc \<and> alternating (pending acc @ cs) \<and> (bufB acc = None \<or> pending acc \<noteq> []))"

text \<open>
  A word diff for the examples: the changes that the test suite expects of the library
  for its pair of sentences, one unchanged part for equal strings, and a removal followed
  by an addition otherwise.
\<close>

definition sampleDiffWords :: "string \<Rightarrow> string \<Rightarrow> Change list" where
  "sampleDiffWords from to =
     (if from = ''I like white houses.'' \<and> to = ''I hate pink houses.'' then
        [\<lparr>cvalue = ''I '', added = False, removed = False\<rparr>,
         \<lparr>cvalue = ''like'', added = False, removed = True\<rparr>,
         \<lparr>cvalue = ''hate'', added = True, removed = False\<rparr>,
         \<lparr>cvalue = '' '', added = False, removed = False\<rparr>,
         \<lparr>cvalue = ''white'', added = False, removed = True\<rparr>,
         \<lparr>cvalue = ''pink'', added = True, removed = False\<rparr>,
         \<lparr>cvalue = '' houses.'', added = False, removed = False\<rparr>]
      else if from = to then [\<lparr>cvalue = from, added = False, removed = False\<rparr>]
      else [\<lparr>cvalue = from, added = False, removed = True\<rparr>,
            \<lparr>cvalue = to, added = True, removed = False\<rparr>])"

subsection \<open>Editor content\<close>



text \<open>The shape of a skeleton: every node has at most one of \<open>text\<close>, \<open>textSegmentId\<close> and
  \<open>content\<close>.\<close>

fun exclusive :: "'i JSONContent \<Rightarrow> bool" where
  "exclusive (JSONContent ty at cont mks txt tsid) =
     ((txt = None \<or> tsid = None) \<and> (txt = None \<or> cont = None) \<and> (tsid = None \<or> cont = None)
      \<and> (case cont of Some children \<Rightarrow> list_all exclusive children | None \<Rightarrow> True))"


text \<open>A text segment without a suggestion, showing its source text.\<close>

definition asNonSuggesting :: "string Translatable \<Rightarrow> string TextSegment" where
  "asNonSuggesting t =
     \<lparr>segId = segId t, srcText = srcText t, mtText = [], mtTextStructure = [], apeText = [],
      apeTextStructure = [], hpeText = srcText t, suggestionIsActive = False, edits = []\<rparr>"

text \<open>The text of the leaves of a tree, in order.\<close>

fun textContent :: "'i JSONContent \<Rightarrow> string" where
  "textContent (JSONContent ty at cont mks txt tsid) =
     (case txt of
        Some t \<Rightarrow> t
      | None \<Rightarrow> (case cont of Some children \<Rightarrow> concat (map textContent children) | None \<Rightarrow> []))"

text \<open>A segment and a skeleton all of whose identifiers are strings, as a segment and a
  skeleton with strings for identifiers; \<open>None\<close> when an identifier is no string.\<close>

fun plainId :: "ident \<Rightarrow> string option" where
  "plainId (Str s) = Some s"
| "plainId (Inherited k) = None"

definition plainSegment :: "ident Translatable \<Rightarrow> string Translatable option" where
  "plainSegment t = map_option (\<lambda>i. \<lparr>segId = i, srcText = srcText t\<rparr>) (plainId (segId t))"

fun plainSkeleton :: "ident JSONContent \<Rightarrow> string JSONContent option" where
  "plainSkeleton (JSONContent ty at cont mks txt tsid) =
     (case (case tsid of None \<Rightarrow> Some None | Some i \<Rightarrow> map_option Some (plainId i)) of
        None \<Rightarrow> None
      | Some plainTsid \<Rightarrow>
          (case cont of
             None \<Rightarrow> Some (JSONContent ty at None mks txt plainTsid)
           | Some children \<Rightarrow>
               (case those (map plainSkeleton children) of
                  None \<Rightarrow> None
                | Some plainChildren \<Rightarrow> Some (JSONContent ty at (Some plainChildren) mks txt plainTsid))))"

text \<open>
  Parsing a tree and building it again from the skeleton and the segments, none of them
  suggesting; the result is the text of the tree built. The skeleton and the segments are
  handed over as they are when their identifiers are strings, which is what
  \<open>buildEditorContentWithMarks\<close> is typed for; otherwise the round trip is not carried out.
\<close>

definition roundTripText :: "(nat \<Rightarrow> string) \<Rightarrow> string JSONContent \<Rightarrow> error + string option" where
  "roundTripText uuid t =
     (case parseEditorContent uuid t of
        (segs, None) \<Rightarrow> Inr None
      | (segs, Some skel) \<Rightarrow>
          (case (plainSkeleton skel, those (map plainSegment segs)) of
             (Some plainSkel, Some plainSegs) \<Rightarrow>
               (case buildEditorContentWithMarks plainSkel (map asNonSuggesting plainSegs) False of
                  Inl e \<Rightarrow> Inl e
                | Inr None \<Rightarrow> Inr None
                | Inr (Some built) \<Rightarrow> Inr (Some (textContent built)))
           | _ \<Rightarrow> Inl IdentifierNotAString))"

text \<open>Sample trees and a sample generator of identifiers for the examples.\<close>

definition sampleUuid :: "nat \<Rightarrow> string" where
  "sampleUuid k = replicate (Suc k) (CHR ''u'')"

definition rawText :: "string \<Rightarrow> 'i JSONContent" where
  "rawText s = JSONContent (Some ''text'') None None None (Some s) None"

definition markedText :: "string \<Rightarrow> string \<Rightarrow> 'i JSONContent" where
  "markedText i s =
     JSONContent (Some ''text'') None None
       (Some [Mark ''textSegmentMark''
                (Some \<lparr>attrTextSegmentId = Some i, hasSuggestion = Some False, suggestionId = None\<rparr>)])
       (Some s) None"

definition para :: "'i JSONContent list \<Rightarrow> 'i JSONContent" where
  "para children = JSONContent (Some ''paragraph'') None (Some children) None None None"

definition doc :: "'i JSONContent list \<Rightarrow> 'i JSONContent" where
  "doc children = JSONContent (Some ''doc'') None (Some children) None None None"

text \<open>A leaf of a skeleton that stands for the text segment with the identifier \<open>i\<close>.\<close>

definition segmentLeaf :: "'i \<Rightarrow> 'i JSONContent" where
  "segmentLeaf i = JSONContent (Some ''text'') None None None None (Some i)"


section \<open>Properties of the history manager\<close>


lemma posMod_range: "0 < m \<Longrightarrow> 0 \<le> posMod n m \<and> posMod n m < m"
proof -
  assume m: "0 < m"
  show ?thesis
  proof (cases "0 \<le> n")
    case True
    then have "jsRem n m = n mod m" using m by (cases "n = 0") (auto simp: jsRem_def)
    then show ?thesis using m by (simp add: posMod_def)
  next
    case False
    define x where "x = (- n) mod m"
    from False have r: "jsRem n m = - x" using m by (simp add: jsRem_def x_def)
    have b: "0 \<le> x" "x < m" using m by (simp_all add: x_def)
    show ?thesis unfolding posMod_def Let_def r using b m by auto
  qed
qed

lemma length_arrSet: "0 \<le> i \<Longrightarrow> i < m \<Longrightarrow> int (length xs) \<le> m \<Longrightarrow> int (length (arrSet xs i v)) \<le> m"
  by (auto simp: arrSet_def)

lemma hm_inv_clear: "0 < maxLength h \<Longrightarrow> hm_inv (clear h)"
  by (simp add: hm_inv_def clear_def)

lemma maxLength_clear: "maxLength (clear h) = maxLength h" by (simp add: clear_def)

lemma hm_inv_goBack: "hm_inv h \<Longrightarrow> hm_inv (snd (goBack h))"
  using posMod_range[of "maxLength h" "pos h - 1"] by (auto simp: hm_inv_def goBack_def)

lemma hm_inv_goForward: "hm_inv h \<Longrightarrow> hm_inv (snd (goForward h))"
  using posMod_range[of "maxLength h" "pos h + 1"] by (auto simp: hm_inv_def goForward_def)

lemma hm_inv_advance: "hm_inv h \<Longrightarrow> hm_inv (advance h) \<and> states (advance h) = states h"
  using posMod_range[of "maxLength h" "pos h + 1"] posMod_range[of "maxLength h" "posMod (pos h + 1) (maxLength h) + 1"]
  by (auto simp: hm_inv_def advance_def Let_def)

lemma hm_inv_addToHistory: "hm_inv h \<Longrightarrow> addToHistory h s = Inr (r, h') \<Longrightarrow> hm_inv h'"
proof -
  assume i: "hm_inv h" and a: "addToHistory h s = Inr (r, h')"
  have ia: "hm_inv (advance h)" and sa: "states (advance h) = states h" using hm_inv_advance[OF i] by simp_all
  from a consider "h' = h" | "h' = (advance h)\<lparr>states := arrSet (states (advance h)) (pos (advance h)) (Some s)\<rparr>"
    by (auto simp: addToHistory_def Let_def split: sum.splits if_splits)
  then show ?thesis
  proof cases
    case 1 then show ?thesis using i by simp
  next
    case 2
    have "int (length (arrSet (states (advance h)) (pos (advance h)) (Some s))) \<le> maxLength (advance h)"
      using ia by (intro length_arrSet) (auto simp: hm_inv_def)
    then show ?thesis using ia 2 by (simp add: hm_inv_def)
  qed
qed

lemma hm_inv_perform: assumes i: "hm_inv h" shows "hm_inv (perform h c)"
proof (cases c)
  case (AddToHistory s)
  then show ?thesis using i by (auto split: sum.splits dest: hm_inv_addToHistory)
next
  case Clear
  from i have "0 < maxLength h" by (simp add: hm_inv_def)
  then show ?thesis using Clear by (simp add: hm_inv_clear)
qed (simp_all add: i hm_inv_goBack hm_inv_goForward)

lemma hm_inv_new: "0 < n \<Longrightarrow> hm_inv (newHistoryManager n dc)"
  by (simp add: newHistoryManager_def hm_inv_def clear_def)

lemma maxLength_perform: "maxLength (perform h c) = maxLength h"
  by (cases c) (auto simp: goBack_def goForward_def clear_def addToHistory_def advance_def Let_def split: sum.splits if_splits)


lemma hm_inv_run:
  "0 < n \<Longrightarrow> hm_inv (foldl perform (newHistoryManager n dc) cs)
     \<and> maxLength (foldl perform (newHistoryManager n dc) cs) = n"
proof (induction cs rule: rev_induct)
  case Nil
  then show ?case by (simp add: hm_inv_new) (simp add: newHistoryManager_def clear_def)
next
  case (snoc c cs)
  then show ?case by (simp add: hm_inv_perform maxLength_perform)
qed

text \<open>
  Claim C10. A history manager constructed with a positive \<open>maxLength\<close> keeps, through
  every sequence of calls of \<open>addToHistory\<close>, \<open>goBack\<close>, \<open>goForward\<close>, \<open>getState\<close> and
  \<open>clear\<close> (and of the two predicates), its indices \<open>pos\<close>, \<open>start\<close> and \<open>end\<close> in the
  interval from 0 up to \<open>maxLength\<close>, \<open>maxLength\<close> excluded, and holds at most \<open>maxLength\<close>
  entries in \<open>states\<close>.
\<close>

theorem history_indices_in_range:
  assumes "0 < n" and "h = foldl perform (newHistoryManager n dc) calls"
  shows "0 \<le> pos h \<and> pos h < n \<and> 0 \<le> start h \<and> start h < n \<and> 0 \<le> endp h \<and> endp h < n
         \<and> int (length (states h)) \<le> n \<and> maxLength h = n"
  using hm_inv_run[OF assms(1), of dc calls] assms(2) by (simp add: hm_inv_def)

theorem history_indices_in_range_witness:
  "(let h = foldl perform (newHistoryManager 2 True)
              [AddToHistory (JNum 1), AddToHistory (JNum 2), AddToHistory (JNum 3), GoBack,
               GetState, GoForward, Clear, AddToHistory (JNum 4)]
    in 0 \<le> pos h \<and> pos h < 2 \<and> 0 \<le> start h \<and> start h < 2 \<and> 0 \<le> endp h \<and> endp h < 2
       \<and> int (length (states h)) \<le> 2 \<and> maxLength h = 2)"
  using history_indices_in_range[of 2 _ True
          "[AddToHistory (JNum 1), AddToHistory (JNum 2), AddToHistory (JNum 3), GoBack,
            GetState, GoForward, Clear, AddToHistory (JNum 4)]", OF _ refl]
  by (simp add: Let_def)
lemma pushAll_snoc:
  "pushAll h (ss @ [s]) = (case pushAll h ss of Inl e \<Rightarrow> Inl e | Inr h' \<Rightarrow> (case addToHistory h' s of Inl e \<Rightarrow> Inl e | Inr (r, h'') \<Rightarrow> Inr h''))"
  by (induction ss arbitrary: h) (auto split: sum.splits)

lemma posMod_small: "0 \<le> k \<Longrightarrow> k < m \<Longrightarrow> posMod k m = k"
  by (cases "k = 0") (auto simp: posMod_def jsRem_def)

lemma posMod_self: "0 < m \<Longrightarrow> posMod m m = 0"
  by (auto simp: posMod_def jsRem_def)

lemma getState_at:
  assumes "states h = map Some xs" "0 \<le> pos h" "nat (pos h) < length xs"
  shows "getState h = Inr (Some (xs ! nat (pos h)))"
proof -
  have a: "arrGet (states h) (pos h) = Some (xs ! nat (pos h))"
    using assms by (simp add: arrGet_def)
  have "states h \<noteq> []" using assms by auto
  then show ?thesis by (cases "deepCopy h") (simp_all add: getState_def a)
qed

lemma getState_last:
  assumes "xs \<noteq> []"
  shows "getState (h\<lparr>pos := int (length xs) - 1, endp := e, states := map Some xs\<rparr>) = Inr (Some (last xs))"
proof -
  have nn: "nat (int (length xs) - 1) = length xs - 1" using assms by simp
  show ?thesis using assms by (subst getState_at[of _ xs]) (simp_all add: nn last_conv_nth)
qed

text \<open>Filling an empty history with at most \<open>n\<close> pairwise different snapshots.\<close>

lemma pushAll_fill:
  assumes "xs \<noteq> []" "int (length xs) \<le> n" "distinct xs"
  shows "pushAll (newHistoryManager n dc) xs =
     Inr ((newHistoryManager n dc)\<lparr>pos := int (length xs) - 1, endp := int (length xs) - 1, states := map Some xs\<rparr>)"
  using assms
proof (induction xs rule: rev_induct)
  case Nil
  then show ?case by simp
next
  case (snoc x xs)
  show ?case
  proof (cases "xs = []")
    case True
    then show ?thesis
      by (simp add: newHistoryManager_def clear_def addToHistory_def getState_def advance_def arrSet_def sameJSON_def)
  next
    case False
    let ?h = "(newHistoryManager n dc)\<lparr>pos := int (length xs) - 1, endp := int (length xs) - 1, states := map Some xs\<rparr>"
    have ih: "pushAll (newHistoryManager n dc) xs = Inr ?h"
      using snoc False by simp
    have len: "0 < length xs" "int (length xs) < n" using False snoc.prems by auto
    have cur: "getState ?h = Inr (Some (last xs))"
      using False by (rule getState_last)
    have ne: "last xs \<noteq> x" using snoc.prems(3) False by auto
    have pm: "posMod (int (length xs) - 1 + 1) n = int (length xs)"
      using len by (simp add: posMod_small)
    have adv: "advance ?h = ?h\<lparr>endp := int (length xs), pos := int (length xs)\<rparr>"
      using len pm by (simp add: advance_def Let_def newHistoryManager_def clear_def)
    have "addToHistory ?h x = Inr (True, ?h\<lparr>endp := int (length xs), pos := int (length xs), states := map Some (xs @ [x])\<rparr>)"
      unfolding addToHistory_def cur adv using ne by (simp add: sameJSON_def arrSet_def)
    then show ?thesis unfolding pushAll_snoc ih by simp
  qed
qed


lemma goBacks_keeps:
  assumes "hm_inv h"
  shows "hm_inv (goBacks k h) \<and> states (goBacks k h) = states h \<and> maxLength (goBacks k h) = maxLength h"
  using assms
proof (induction k arbitrary: h)
  case 0
  then show ?case by simp
next
  case (Suc k)
  have "hm_inv (snd (goBack h))" using Suc.prems by (rule hm_inv_goBack)
  moreover have "states (snd (goBack h)) = states h" "maxLength (snd (goBack h)) = maxLength h"
    by (simp_all add: goBack_def)
  ultimately show ?case using Suc.IH[of "snd (goBack h)"] by simp
qed

lemma getState_member:
  assumes "hm_inv h" "int (length (states h)) = maxLength h" "None \<notin> set (states h)"
  shows "\<exists>v. getState h = Inr (Some v) \<and> Some v \<in> set (states h)"
proof -
  have r: "0 \<le> pos h" "nat (pos h) < length (states h)" using assms(1,2) by (auto simp: hm_inv_def)
  then have m: "states h ! nat (pos h) \<in> set (states h)" by simp
  have "states h ! nat (pos h) \<noteq> None" using m assms(3) by metis
  then obtain v where v: "states h ! nat (pos h) = Some v" by blast
  have "states h \<noteq> []" using r by auto
  then have "getState h = Inr (Some v)"
    using r v by (cases "deepCopy h") (simp_all add: getState_def arrGet_def Let_def)
  then show ?thesis using m v by simp
qed


lemma pushAll_overflow:
  assumes n: "1 \<le> n" and len: "int (length ss) = n + 1" and d: "distinct ss"
  shows "\<exists>h. pushAll (newHistoryManager n dc) ss = Inr h \<and>
           (\<forall>k. getState (goBacks k h) \<noteq> Inr (Some (hd ss)))"
proof -
  obtain xs x where ss: "ss = xs @ [x]" using len n by (cases ss rule: rev_cases) auto
  have xl: "int (length xs) = n" "xs \<noteq> []" using len ss n by auto
  have dx: "distinct xs" "x \<notin> set xs" using d ss by auto
  let ?h = "(newHistoryManager n dc)\<lparr>pos := int (length xs) - 1, endp := int (length xs) - 1, states := map Some xs\<rparr>"
  have fill: "pushAll (newHistoryManager n dc) xs = Inr ?h"
    using pushAll_fill[OF xl(2) _ dx(1), of n dc] xl by simp
  have cur: "getState ?h = Inr (Some (last xs))"
    using xl(2) by (rule getState_last)
  have ne: "last xs \<noteq> x" using dx xl by (metis last_in_set)
  have pm: "posMod (int (length xs) - 1 + 1) n = 0" using xl n by (simp add: posMod_self)
  define st where "st = posMod 1 n"
  have adv: "advance ?h = ?h\<lparr>endp := 0, pos := 0, start := st\<rparr>"
    using xl pm by (simp add: advance_def Let_def newHistoryManager_def clear_def st_def)
  let ?g = "?h\<lparr>endp := 0, pos := 0, start := st, states := (map Some xs)[0 := Some x]\<rparr>"
  have add: "addToHistory ?h x = Inr (True, ?g)"
    unfolding addToHistory_def cur adv using ne xl by (simp add: sameJSON_def arrSet_def)
  have run: "pushAll (newHistoryManager n dc) ss = Inr ?g"
    unfolding ss pushAll_snoc fill using add by simp
  have stb: "0 \<le> st" "st < n" using posMod_range[of n 1] n by (simp_all add: st_def)
  have inv: "hm_inv ?g" using stb n xl by (simp add: hm_inv_def newHistoryManager_def clear_def)
  have full: "int (length (states ?g)) = maxLength ?g" using xl by (simp add: newHistoryManager_def clear_def)
  have sts: "states ?g = Some x # map Some (tl xs)" using xl by (cases xs) auto
  have hd: "hd ss = hd xs" using ss xl by (cases xs) auto
  have nohd: "Some (hd ss) \<notin> set (states ?g)"
    using dx xl unfolding sts hd by (cases xs) auto
  have nonone: "None \<notin> set (states ?g)" unfolding sts by auto
  have "getState (goBacks k ?g) \<noteq> Inr (Some (hd ss))" for k
  proof -
    have k: "hm_inv (goBacks k ?g)" "states (goBacks k ?g) = states ?g"
      and ml: "maxLength (goBacks k ?g) = maxLength ?g"
      using goBacks_keeps[OF inv, of k] by simp_all
    have "int (length (states (goBacks k ?g))) = maxLength (goBacks k ?g)"
      using full k(2) ml by simp
    from getState_member[OF k(1) this] nonone k(2)
    obtain v where "getState (goBacks k ?g) = Inr (Some v)" "Some v \<in> set (states ?g)" by auto
    then show ?thesis using nohd by auto
  qed
  then show ?thesis using run by blast
qed


text \<open>
  Claim C4. For every capacity \<open>n \<ge> 1\<close>: after \<open>n + 1\<close> pairwise different snapshots have
  been added to a new history manager of capacity \<open>n\<close> (every one of the calls returns),
  no number of \<open>goBack\<close> calls makes \<open>getState\<close> return the first snapshot.
\<close>

theorem history_oldest_evicted:
  assumes "1 \<le> n" and "int (length ss) = n + 1" and "distinct ss"
  shows "\<exists>h. pushAll (newHistoryManager n dc) ss = Inr h \<and>
           (\<forall>k. getState (goBacks k h) \<noteq> Inr (Some (hd ss)))"
  using assms by (rule pushAll_overflow)

theorem history_oldest_evicted_witness:
  "\<exists>h. pushAll (newHistoryManager 2 True) [JNum 1, JNum 2, JNum 3] = Inr h \<and>
           (\<forall>k. getState (goBacks k h) \<noteq> Inr (Some (JNum 1)))"
  using history_oldest_evicted[of 2 "[JNum 1, JNum 2, JNum 3]" True] by simp

text \<open>
  Claim C5. The claim: adding a snapshot equal to the entry under \<open>pos\<close> returns false and
  changes nothing. The guard of \<open>addToHistory\<close> is \<open>this.getState() && ...\<close>, so a falsy
  current entry is never recognised: after the snapshot \<open>0\<close> has been added, adding \<open>0\<close>
  again returns true, moves \<open>pos\<close> and \<open>end\<close> to 1 and stores a second copy.
\<close>

theorem addToHistory_falsy_duplicate:
  "addToHistory (newHistoryManager 3 False) (JNum 0)
     = Inr (True, (newHistoryManager 3 False)\<lparr>states := [Some (JNum 0)]\<rparr>)
   \<and> getState ((newHistoryManager 3 False)\<lparr>states := [Some (JNum 0)]\<rparr>) = Inr (Some (JNum 0))
   \<and> addToHistory ((newHistoryManager 3 False)\<lparr>states := [Some (JNum 0)]\<rparr>) (JNum 0)
     = Inr (True, (newHistoryManager 3 False)
                    \<lparr>pos := 1, endp := 1, states := [Some (JNum 0), Some (JNum 0)]\<rparr>)"
  by (simp add: addToHistory_def getState_def newHistoryManager_def clear_def advance_def
        arrGet_def arrSet_def sameJSON_def posMod_def jsRem_def Let_def)

text \<open>For a truthy current entry the guard works as documented.\<close>

lemma addToHistory_truthy_duplicate:
  assumes "getState h = Inr (Some s)" and "truthy (Some s)"
  shows "addToHistory h s = Inr (False, h)"
  using assms by (simp add: addToHistory_def sameJSON_def)

section \<open>Properties of the diff highlights\<close>

text \<open>A callback that does one more step on the last element: \<open>reduce\<close> is a fold followed
  by that step.\<close>


lemma reduceFrom_last:
  assumes f: "\<And>acc c i arr. f acc c i arr = (if int i = int (length arr) - 1 then fin (g acc c) else g acc c)"
  shows "reduceFrom f acc (length pre) (pre @ cs) cs = (if cs = [] then acc else fin (foldl g acc cs))"
proof (induction cs arbitrary: acc pre)
  case Nil
  then show ?case by simp
next
  case (Cons c cs)
  have step: "f acc c (length pre) (pre @ c # cs) = (if cs = [] then fin (g acc c) else g acc c)"
    by (simp add: f)
  have "reduceFrom f acc (length pre) (pre @ c # cs) (c # cs)
        = reduceFrom f (f acc c (length pre) (pre @ c # cs)) (length (pre @ [c])) ((pre @ [c]) @ cs) cs"
    by simp
  also have "\<dots> = (if cs = [] then f acc c (length pre) (pre @ c # cs)
                    else fin (foldl g (f acc c (length pre) (pre @ c # cs)) cs))"
    by (rule Cons.IH)
  also have "\<dots> = fin (foldl g acc (c # cs))"
    unfolding step by simp
  finally show ?case by simp
qed

lemma reduce_last:
  assumes "\<And>acc c i arr. f acc c i arr = (if int i = int (length arr) - 1 then fin (g acc c) else g acc c)"
  shows "reduce f init arr = (if arr = [] then init else fin (foldl g init arr))"
  using reduceFrom_last[of f fin g init "[]" arr, OF assms] by (simp add: reduce_def)

subsection \<open>The first pass\<close>

lemma filterAndCombineChanges_split:
  "filterAndCombineChanges strat acc c i arr =
     (if int i = int (length arr) - 1 then tidy (combine strat acc c) else combine strat acc c)"
  by (simp add: filterAndCombineChanges_def combine_def tidy_def Let_def split: option.splits)

lemma result_tidy: "result (tidy acc) = chains acc"
  by (simp add: tidy_def chains_def split: option.splits)

lemma firstPass_chains:
  "firstPass strat diff = chains (foldl (combine strat) \<lparr>currentChain = None, result = []\<rparr> diff)"
  unfolding firstPass_def
  by (subst reduce_last[of _ tidy "combine strat"]) (simp_all add: filterAndCombineChanges_split result_tidy chains_def)

lemma alternating_snoc:
  "alternating (xs @ [x]) = (alternating xs \<and> (xs = [] \<or> highlight (last xs) \<noteq> highlight x))"
  by (induction xs rule: alternating.induct) auto




lemma chains_combine_alt:
  "chainsOk acc \<Longrightarrow> chainsOk (combine strat acc c)"
  by (auto simp: chainsOk_def chains_def combine_def Let_def alternating_snoc split: option.splits)

lemma firstPass_alt_aux:
  "chainsOk acc \<Longrightarrow> chainsOk (foldl (combine strat) acc cs)"
  by (induction cs arbitrary: acc) (simp_all add: chains_combine_alt)

lemma firstPass_alternating: "alternating (firstPass strat diff)"
proof -
  have "chainsOk \<lparr>currentChain = None, result = []\<rparr>" by (simp add: chainsOk_def chains_def)
  then have "chainsOk (foldl (combine strat) \<lparr>currentChain = None, result = []\<rparr> diff)"
    by (rule firstPass_alt_aux)
  then show ?thesis by (simp add: firstPass_chains chainsOk_def)
qed


subsection \<open>The second pass\<close>

lemma whitespaceReducer_split:
  "whitespaceReducer acc c i arr = (if int i = int (length arr) - 1 then flush (shift acc c) else shift acc c)"
  by (simp add: whitespaceReducer_def shift_def flush_def Let_def)

lemma highlightWhitespace_pending:
  "highlightWhitespaceBetweenHighlights arr = pending (foldl shift \<lparr>bufA = None, bufB = None, wresult = []\<rparr> arr)"
  unfolding highlightWhitespaceBetweenHighlights_def
  by (subst reduce_last[of _ flush shift]) (simp_all add: whitespaceReducer_split flush_def pending_def List.map_filter_simps)





text \<open>The pending spans, followed by the spans still to be read, alternate.\<close>

lemma alternating_append:
  "alternating (xs @ ys) = (alternating xs \<and> alternating ys \<and> (xs = [] \<or> ys = [] \<or> highlight (last xs) \<noteq> highlight (hd ys)))"
proof (induction xs)
  case Nil
  then show ?case by simp
next
  case (Cons x xs)
  have c: "alternating (x # zs) = (alternating zs \<and> (zs = [] \<or> highlight x \<noteq> highlight (hd zs)))" for zs
    by (cases zs) auto
  show ?case
  proof (cases xs)
    case Nil
    then show ?thesis by (simp add: c)
  next
    case (Cons y ys')
    then show ?thesis using Cons.IH by (auto simp: c)
  qed
qed

lemma pendingOk_shift:
  assumes "pendingOk acc (c # cs)"
  shows "pendingOk (shift acc c) cs"
proof (cases "bufB acc")
  case None
  then show ?thesis using assms
    by (auto simp: pendingOk_def bufOk_def pending_def shift_def List.map_filter_simps)
next
  case (Some b)
  note b = this
  show ?thesis
  proof (cases "bufA acc")
    case None
    then show ?thesis using assms b
      by (auto simp: pendingOk_def bufOk_def pending_def shift_def List.map_filter_simps)
  next
    case (Some a)
    show ?thesis
    proof (cases "highlight a \<and> \<not> highlight b \<and> highlight c \<and> stringContainsOnlyWhitespace (evalue b)")
      case False
      then show ?thesis using assms b Some
        by (auto simp: pendingOk_def bufOk_def pending_def shift_def List.map_filter_simps)
    next
      case True
      have p: "pending acc = wresult acc @ [a, b]" using b Some by (simp add: pending_def List.map_filter_simps)
      have p': "pending (shift acc c) = wresult acc @ [\<lparr>evalue = evalue a @ evalue b @ evalue c, highlight = True\<rparr>]"
        using b Some True by (simp add: pending_def shift_def List.map_filter_simps)
      have alt: "alternating (wresult acc @ [a, b] @ c # cs)" using assms p by (simp add: pendingOk_def)
      have "alternating (wresult acc @ [\<lparr>evalue = evalue a @ evalue b @ evalue c, highlight = True\<rparr>] @ cs)"
        using alt True by (cases cs) (auto simp: alternating_append)
      then show ?thesis using p' b Some True by (simp add: pendingOk_def bufOk_def shift_def)
    qed
  qed
qed

lemma pendingOk_foldl: "pendingOk acc cs \<Longrightarrow> pendingOk (foldl shift acc cs) []"
  by (induction cs arbitrary: acc) (simp_all add: pendingOk_shift)

lemma highlightWhitespace_alternating:
  assumes "alternating arr"
  shows "alternating (highlightWhitespaceBetweenHighlights arr)"
proof -
  have "pendingOk \<lparr>bufA = None, bufB = None, wresult = []\<rparr> arr"
    using assms by (simp add: pendingOk_def bufOk_def pending_def List.map_filter_simps)
  then have "pendingOk (foldl shift \<lparr>bufA = None, bufB = None, wresult = []\<rparr> arr) []"
    by (rule pendingOk_foldl)
  then show ?thesis by (simp add: highlightWhitespace_pending pendingOk_def)
qed

lemma getHighlightsWithStrategy_firstPass:
  "getHighlightsWithStrategy strat diff = highlightWhitespaceBetweenHighlights (firstPass strat diff)"
  by (simp add: getHighlightsWithStrategy_def firstPass_def)


text \<open>A diff made of unchanged parts only gives one span that is not highlighted.\<close>

lemma combine_unchanged:
  assumes "\<not> added c" "\<not> removed c"
  shows "combine strat \<lparr>currentChain = Some \<lparr>evalue = v, highlight = False\<rparr>, result = []\<rparr> c
         = \<lparr>currentChain = Some \<lparr>evalue = v @ cvalue c, highlight = False\<rparr>, result = []\<rparr>"
  using assms by (cases strat) (simp_all add: combine_def)

lemma foldl_combine_unchanged:
  assumes "list_all (\<lambda>c. \<not> added c \<and> \<not> removed c) cs"
  shows "foldl (combine strat) \<lparr>currentChain = Some \<lparr>evalue = v, highlight = False\<rparr>, result = []\<rparr> cs
         = \<lparr>currentChain = Some \<lparr>evalue = v @ concat (map cvalue cs), highlight = False\<rparr>, result = []\<rparr>"
  using assms by (induction cs arbitrary: v) (simp_all add: combine_unchanged)

lemma firstPass_unchanged:
  assumes "diff \<noteq> []" and "list_all (\<lambda>c. \<not> added c \<and> \<not> removed c) diff"
  shows "firstPass strat diff = [\<lparr>evalue = concat (map cvalue diff), highlight = False\<rparr>]"
proof -
  obtain c cs where d: "diff = c # cs" using assms(1) by (cases diff) auto
  have c: "\<not> added c" "\<not> removed c" and cs: "list_all (\<lambda>c. \<not> added c \<and> \<not> removed c) cs"
    using assms(2) d by simp_all
  have "combine strat \<lparr>currentChain = None, result = []\<rparr> c
        = \<lparr>currentChain = Some \<lparr>evalue = cvalue c, highlight = False\<rparr>, result = []\<rparr>"
    using c by (cases strat) (simp_all add: combine_def)
  then show ?thesis
    unfolding firstPass_chains d by (simp add: foldl_combine_unchanged[OF cs] chains_def)
qed

lemma highlightWhitespace_single: "highlightWhitespaceBetweenHighlights [x] = [x]"
  by (simp add: highlightWhitespace_pending shift_def pending_def List.map_filter_simps)

lemma getHighlightsWithStrategy_unchanged:
  assumes "diff \<noteq> []" and "list_all (\<lambda>c. \<not> added c \<and> \<not> removed c) diff"
  shows "getHighlightsWithStrategy strat diff = [\<lparr>evalue = concat (map cvalue diff), highlight = False\<rparr>]"
  by (simp add: getHighlightsWithStrategy_firstPass firstPass_unchanged[OF assms] highlightWhitespace_single)


lemma getHighlightsWithStrategy_alternating:
  "alternating (getHighlightsWithStrategy strat diff)"
  by (simp add: getHighlightsWithStrategy_firstPass highlightWhitespace_alternating firstPass_alternating)




text \<open>
  Claim C7. For every pair of strings, in each of the two span lists of \<open>getHighlights\<close> no
  two neighbouring spans have the same highlight flag. This holds for every list of
  changes, whatever the word diff returns.
\<close>

theorem getHighlights_alternating:
  "alternating (fromHighlights (getHighlights diffWords from to))
   \<and> alternating (toHighlights (getHighlights diffWords from to))"
  by (simp add: getHighlights_def Let_def getHighlightsWithStrategy_alternating)

theorem getHighlights_alternating_witness:
  "alternating (fromHighlights (getHighlights sampleDiffWords ''I like white houses.'' ''I hate pink houses.''))
   \<and> alternating (toHighlights (getHighlights sampleDiffWords ''I like white houses.'' ''I hate pink houses.''))"
  by (rule getHighlights_alternating)

text \<open>
  Claim C9. For every string \<open>s\<close>, \<open>getHighlights(s, s)\<close> returns two equal span lists, each
  one span whose value is \<open>s\<close> and whose highlight flag is false. Asked of the word diff:
  for equal strings it returns at least one part, only unchanged parts, and they make up
  \<open>s\<close>.
\<close>

theorem getHighlights_identical:
  assumes "diffWords s s \<noteq> []"
      and "list_all (\<lambda>c. \<not> added c \<and> \<not> removed c) (diffWords s s)"
      and "concat (map cvalue (diffWords s s)) = s"
  shows "fromHighlights (getHighlights diffWords s s) = [\<lparr>evalue = s, highlight = False\<rparr>]
       \<and> toHighlights (getHighlights diffWords s s) = [\<lparr>evalue = s, highlight = False\<rparr>]"
  using assms(3)
  by (simp add: getHighlights_def Let_def getHighlightsWithStrategy_unchanged[OF assms(1,2)])

theorem getHighlights_identical_witness:
  "fromHighlights (getHighlights sampleDiffWords ''Mountains are inspiring!'' ''Mountains are inspiring!'')
     = [\<lparr>evalue = ''Mountains are inspiring!'', highlight = False\<rparr>]
   \<and> toHighlights (getHighlights sampleDiffWords ''Mountains are inspiring!'' ''Mountains are inspiring!'')
     = [\<lparr>evalue = ''Mountains are inspiring!'', highlight = False\<rparr>]"
  using getHighlights_identical[of sampleDiffWords "''Mountains are inspiring!''"]
  by (simp add: sampleDiffWords_def)

section \<open>Properties of building the editor content\<close>







section \<open>Properties of parsing the editor content\<close>

text \<open>
  Claim C1. The claim: parsing a tree and building it again from the skeleton and the
  segments, none of them suggesting, gives a tree with the same text. The separator that
  \<open>splitStringIntoSentencesAndWhitespace\<close> inserts is the bar, and \<open>split\<close> drops every bar of
  the text with it: the paragraph \<open>a|b\<close> comes back as \<open>ab\<close>.
\<close>

theorem roundTrip_loses_bar:
  "textContent (doc [para [rawText ''a|b'']]) = ''a|b''
   \<and> roundTripText sampleUuid (doc [para [rawText ''a|b'']]) = Inr (Some ''ab'')"
  by code_simp

subsection \<open>The shape of the skeleton\<close>

text \<open>Every node of the skeleton that \<open>parseEditorContent\<close> returns has at most one of
  \<open>text\<close>, \<open>textSegmentId\<close> and \<open>content\<close>.\<close>

lemma removeDuplicateTextNodes_fold:
  "set (snd (foldl (\<lambda>(lastId, newContent) node.
                   (textSegmentId node,
                    if \<not> truthyId (textSegmentId node) \<or> lastId \<noteq> textSegmentId node
                    then newContent @ [node] else newContent))
                (l, acc) xs)) \<subseteq> set acc \<union> set xs"
proof (induction xs arbitrary: l acc)
  case Nil
  then show ?case by simp
next
  case (Cons a xs)
  show ?case
    using Cons[of "textSegmentId a" "acc @ [a]"] Cons[of "textSegmentId a" acc]
    by (auto split: if_splits)
qed

lemma removeDuplicateTextNodes_subset: "set (removeDuplicateTextNodes xs) \<subseteq> set xs"
  unfolding removeDuplicateTextNodes_def using removeDuplicateTextNodes_fold[of None "[]" xs] by simp

lemma wrapRawText_exclusive:
  "list_all exclusive (structures r)
   \<Longrightarrow> list_all exclusive (structures (fst (wrapRawText uuid ty atr strs r n)))"
  by (induction strs arbitrary: r n) (auto simp: Let_def)

lemma parse_exclusive:
  "list_all exclusive (structures (fst (parseEditorContentInternal uuid node parseHist repl n)))"
  and
  "list_all exclusive (tempContent st)
   \<Longrightarrow> list_all exclusive (tempContent (fst (parseChildren uuid children parseHist st n)))"
proof (induction uuid node parseHist repl n and uuid children parseHist st n
        rule: parseEditorContentInternal_parseChildren.induct)
  case (1 uuid ty atr cont mks tx tsid parseHist oldIdReplacements n)
  show ?case
  proof (cases tx)
    case (Some t)
    show ?thesis
    proof (cases mks)
      case None
      then show ?thesis using Some by (simp add: wrapRawText_exclusive)
    next
      case (Some ms)
      then show ?thesis using \<open>tx = Some t\<close>
        by (auto simp: Let_def split: option.splits prod.splits if_splits)
    qed
  next
    case None
    note tx = this
    show ?thesis
    proof (cases cont)
      case None
      then show ?thesis using tx by simp
    next
      case (Some children)
      obtain st n' where st: "parseChildren uuid children parseHist
               \<lparr>tempTextSegments = [], tempContent = [], localParseHistory = [],
                childIdReplacements = oldIdReplacements\<rparr> n = (st, n')"
        by (cases "parseChildren uuid children parseHist
               \<lparr>tempTextSegments = [], tempContent = [], localParseHistory = [],
                childIdReplacements = oldIdReplacements\<rparr> n")
      have "list_all exclusive (tempContent st)"
        using "1.IH"[OF tx Some] st by simp
      then have "list_all exclusive (removeDuplicateTextNodes (tempContent st))"
        using removeDuplicateTextNodes_subset[of "tempContent st"] by (auto simp: list_all_iff)
      then show ?thesis using tx Some st by simp
    qed
  qed
next
  case (2 uuid parseHist st n)
  then show ?case by simp
next
  case (3 uuid child rest parseHist st n)
  obtain r n' where r: "parseEditorContentInternal uuid child (parseHist @ localParseHistory st)
              (childIdReplacements st) n = (r, n')" by (cases "parseEditorContentInternal uuid child (parseHist @ localParseHistory st)
              (childIdReplacements st) n")
  have "list_all exclusive (structures r)" using "3.IH"(1) r by simp
  then have "list_all exclusive (tempContent st @ structures r)" using "3.prems" by simp
  then show ?case using "3.IH"(2)[OF r[symmetric] refl] r by (simp add: Let_def)
qed

lemma parse_skeleton_exclusive:
  "(case snd (parseEditorContent uuid T) of Some skel \<Rightarrow> exclusive skel | None \<Rightarrow> True)"
proof -
  obtain r n where r: "parseEditorContentInternal uuid T [] Map.empty 0 = (r, n)"
    by (cases "parseEditorContentInternal uuid T [] Map.empty 0")
  have "list_all exclusive (structures r)" using parse_exclusive(1)[of uuid T "[]" Map.empty 0] r by simp
  then show ?thesis using r by (auto simp: parseEditorContent_def split: list.splits)
qed

subsection \<open>Identifiers\<close>

text \<open>
  An identifier that is the name of a property of \<open>Object.prototype\<close>: the table gives the
  inherited function for it, which takes the place of the identifier. The first leaf is
  given the function; for the second the function is found in the history and a fresh
  identifier is generated, which is recorded under the key of the function, so that the
  third leaf, which carries \<open>constructor\<close> as well, is given the function again and then a
  further identifier.
\<close>

lemma parse_inherited_property:
  "fst (parseEditorContent sampleUuid
          (doc [para [markedText ''constructor'' ''x''],
                para [markedText ''constructor'' ''y'', markedText ''constructor'' ''z'']]))
   = [\<lparr>segId = Inherited ''constructor'', srcText = ''x''\<rparr>,
      \<lparr>segId = Str ''u'', srcText = ''y''\<rparr>,
      \<lparr>segId = Str ''uu'', srcText = ''z''\<rparr>]"
  by code_simp

text \<open>
  Claim C3. The claim: the text segments that \<open>parseEditorContent\<close> returns have pairwise
  different identifiers. The parse history holds the token \<open>break\<close>, which is pushed at the
  end of every node, in the same array as the identifiers. In the tree below the first
  and the third paragraph hold a leaf whose mark carries the identifier \<open>break\<close>, and the
  second paragraph holds raw text. When the third leaf is parsed its identifier has been
  used before, but the last entry of the history is the token \<open>break\<close> of the second
  paragraph, which \<open>requiresNewTextSegmentId\<close> takes for the identifier of the leaf: the
  leaf is taken to continue a chain and keeps its identifier. Two of the three text
  segments returned have the identifier \<open>break\<close>.
\<close>

theorem parse_repeats_token_id:
  "fst (parseEditorContent sampleUuid
          (doc [para [markedText ''break'' ''x''], para [rawText ''b''],
                para [markedText ''break'' ''y'']]))
     = [\<lparr>segId = Str ''break'', srcText = ''x''\<rparr>,
        \<lparr>segId = Str ''u'', srcText = ''b''\<rparr>,
        \<lparr>segId = Str ''break'', srcText = ''y''\<rparr>]
   \<and> \<not> distinct (map segId (fst (parseEditorContent sampleUuid
          (doc [para [markedText ''break'' ''x''], para [rawText ''b''],
                para [markedText ''break'' ''y'']]))))"
  by code_simp

text \<open>
  Claim C6. The claim: when the identifier of a marked leaf is found stale, a fresh
  identifier is generated for that leaf, and every later leaf of the same parse that still
  carries the stale identifier is given that same fresh identifier. The code records the
  fresh identifier in the replacement table under the identifier it has looked up, and it
  checks the identifier looked up for staleness again. In the tree below four leaves carry
  \<open>A\<close>. The first keeps it. For the second \<open>A\<close> is stale: the leaf is given \<open>u\<close>, recorded
  under \<open>A\<close>. For the third \<open>A\<close> is looked up as \<open>u\<close>, which is stale in the third
  paragraph: the leaf is given \<open>uu\<close>, recorded under \<open>u\<close>. For the fourth, which follows
  the third directly in the same paragraph, \<open>A\<close> is still looked up as \<open>u\<close>: the leaf is
  given \<open>uuu\<close>. The three later leaves do not share one fresh identifier; the result is
  four text segments with four identifiers.
\<close>

theorem parse_stale_fragments_torn:
  "parseEditorContent sampleUuid
     (doc [para [markedText ''A'' ''x''], para [markedText ''A'' ''y''],
           para [markedText ''A'' ''z'', markedText ''A'' ''w'']])
   = ([\<lparr>segId = Str ''A'', srcText = ''x''\<rparr>,
       \<lparr>segId = Str ''u'', srcText = ''y''\<rparr>,
       \<lparr>segId = Str ''uu'', srcText = ''z''\<rparr>,
       \<lparr>segId = Str ''uuu'', srcText = ''w''\<rparr>],
      Some (doc [para [segmentLeaf (Str ''A'')], para [segmentLeaf (Str ''u'')],
                 para [segmentLeaf (Str ''uu''), segmentLeaf (Str ''uuu'')]]))"
  by code_simp

end
